theory Spec2Isabelle
  imports Main
begin

section \<open>The state helper driver (drivers/soc/qcom/state\_helper.c)\<close>

text \<open>
  The driver keeps a number of CPU cores online that depends on the suspend state of the
  device. Its C globals, the CPU masks of the kernel it reads, the work queue and the
  notifier it uses are gathered in one record, which every function of the driver takes
  and returns. The unsigned integers of the source are natural numbers here: the driver
  only compares and assigns them, it never does arithmetic on them.
\<close>

subsection \<open>Data\<close>

text \<open>\<^verbatim>\<open>struct state_helper\<close>: the three configuration fields.\<close>

record state_helper =
  enabled :: nat
  max_cpus_online :: nat
  debug :: nat

text \<open>The calls the driver makes into the CPU hotplug core, in the order it makes them.\<close>

datatype hotplug = Cpu_down nat | Cpu_up nat

text \<open>The lines the driver writes to the kernel log.\<close>

datatype printk =
    Switching_offline nat
  | Switching_online nat
  | Target_achieved nat
  | Target_requested nat
  | CPU_status nat bool
  | Failed_allocate_workqueue
  | Failed_register_notifier

datatype error = EINVAL

datatype notify = NOTIFY_OK

text \<open>
  The driver's globals (\<open>helper\<close>, \<open>target_cpus\<close>, \<open>helper_wq\<close>, \<open>notif\<close>,
  \<open>helper_work\<close>) and the part of the kernel they meet. \<open>NR_CPUS\<close> is the build-time
  bound on CPU ids; the two masks are the kernel's \<open>cpu_possible_mask\<close> and
  \<open>cpu_online_mask\<close>. \<open>down_refused\<close> and \<open>up_refused\<close> are the cores on which
  the platform refuses a transition, \<open>alloc_workqueue_fails\<close> and
  \<open>state_register_client_fails\<close> say whether these two calls of \<open>state_helper_start\<close>
  fail. \<open>helper_wq\<close> is true when the pointer holds a live work queue, \<open>work_pending\<close>
  when \<open>helper_work\<close> is queued and has not run yet. \<open>hotplug_log\<close> and \<open>klog\<close>
  record what the driver has asked of the hotplug core and written to the kernel log.
\<close>

record kernel =
  NR_CPUS :: nat
  cpu_possible_mask :: "nat set"
  cpu_online_mask :: "nat set"
  down_refused :: "nat set"
  up_refused :: "nat set"
  state_suspended :: bool
  alloc_workqueue_fails :: bool
  state_register_client_fails :: bool
  helper :: state_helper
  target_cpus :: nat
  helper_wq :: bool
  notifier_call :: bool
  notifier_registered :: bool
  work_pending :: bool
  hotplug_log :: "hotplug list"
  klog :: "printk list"

subsection \<open>Constants and the initial configuration\<close>

definition HELPER_ENABLED :: nat where
  "HELPER_ENABLED = 0"

definition DEFAULT_MAX_CPUS_ONLINE :: "nat \<Rightarrow> nat" where
  "DEFAULT_MAX_CPUS_ONLINE nr_cpus = nr_cpus"

definition DEFAULT_SUSP_CPUS :: nat where
  "DEFAULT_SUSP_CPUS = 1"

definition DEBUG_MASK :: nat where
  "DEBUG_MASK = 1"

text \<open>The static initialiser of \<open>helper\<close>, for a kernel built with \<open>nr_cpus\<close> CPU ids.\<close>

definition helper_init :: "nat \<Rightarrow> state_helper" where
  "helper_init nr_cpus =
     \<lparr>enabled = HELPER_ENABLED,
      max_cpus_online = DEFAULT_MAX_CPUS_ONLINE nr_cpus,
      debug = DEBUG_MASK\<rparr>"

subsection \<open>The kernel services the driver calls\<close>

text \<open>
  Modelled from the spec: the platform core control (\<open>is_online\<close>, \<open>count_online\<close>,
  \<open>request_offline\<close>, \<open>request_online\<close>), which is \<open>cpu_online\<close>,
  \<open>num_online_cpus\<close>, \<open>cpu_down\<close> and \<open>cpu_up\<close> of linux/cpu.h and
  linux/cpumask.h, not part of this file. A request is recorded whether or not the
  platform carries it out; it changes the bit of the one core it names, and only when
  that core is in the state to leave and the platform does not refuse.
\<close>

definition cpu_online :: "kernel \<Rightarrow> nat \<Rightarrow> bool" where
  "cpu_online s cpu = (cpu \<in> cpu_online_mask s)"

definition num_online_cpus :: "kernel \<Rightarrow> nat" where
  "num_online_cpus s = card (cpu_online_mask s)"

definition cpu_down :: "nat \<Rightarrow> kernel \<Rightarrow> kernel" where
  "cpu_down cpu s =
     s\<lparr>cpu_online_mask :=
         (if cpu \<in> cpu_online_mask s \<and> cpu \<notin> down_refused s
          then cpu_online_mask s - {cpu} else cpu_online_mask s),
       hotplug_log := hotplug_log s @ [Cpu_down cpu]\<rparr>"

definition cpu_up :: "nat \<Rightarrow> kernel \<Rightarrow> kernel" where
  "cpu_up cpu s =
     s\<lparr>cpu_online_mask :=
         (if cpu \<in> cpu_possible_mask s \<and> cpu \<notin> up_refused s
          then insert cpu (cpu_online_mask s) else cpu_online_mask s),
       hotplug_log := hotplug_log s @ [Cpu_up cpu]\<rparr>"

definition pr_info :: "printk \<Rightarrow> kernel \<Rightarrow> kernel" where
  "pr_info m s = s\<lparr>klog := klog s @ [m]\<rparr>"

definition pr_err :: "printk \<Rightarrow> kernel \<Rightarrow> kernel" where
  "pr_err m s = s\<lparr>klog := klog s @ [m]\<rparr>"

text \<open>The macro \<open>dprintk\<close>: a log line only when \<open>helper.debug\<close> is set.\<close>

definition dprintk :: "printk \<Rightarrow> kernel \<Rightarrow> kernel" where
  "dprintk m s = (if debug (helper s) \<noteq> 0 then pr_info m s else s)"

subsection \<open>The reconciliation pass\<close>

text \<open>
  \<open>for_each_online_cpu\<close> walks the CPU ids upwards and runs its body on the ids whose
  bit is set in the live online mask when the walk reaches them. The walk is over the ids
  below \<open>NR_CPUS\<close>: the kernel stops at \<open>nr_cpu_ids\<close>, which is at most
  \<open>NR_CPUS\<close>, and no mask has a bit at or above it. The body skips core 0
  (\<open>continue\<close>), logs, calls \<open>cpu_down\<close> and leaves the loop (\<open>break\<close>) once the
  target is at least the live count.
\<close>

fun offline_loop :: "nat list \<Rightarrow> kernel \<Rightarrow> kernel" where
  "offline_loop [] s = s"
| "offline_loop (cpu # cpus) s =
     (if \<not> cpu_online s cpu then offline_loop cpus s
      else if cpu = 0 then offline_loop cpus s
      else
        let s' = cpu_down cpu (dprintk (Switching_offline cpu) s)
        in if target_cpus s' \<ge> num_online_cpus s' then s' else offline_loop cpus s')"

text \<open>
  \<open>for_each_possible_cpu\<close> walks the ids of the possible mask upwards. The body leaves
  the loop once the target is at most the live count, and otherwise calls \<open>cpu_up\<close>
  on a core that is not online and logs.
\<close>

fun online_loop :: "nat list \<Rightarrow> kernel \<Rightarrow> kernel" where
  "online_loop [] s = s"
| "online_loop (cpu # cpus) s =
     (if cpu \<notin> cpu_possible_mask s then online_loop cpus s
      else if target_cpus s \<le> num_online_cpus s then s
      else if \<not> cpu_online s cpu
        then online_loop cpus (dprintk (Switching_online cpu) (cpu_up cpu s))
      else online_loop cpus s)"

text \<open>The status line of every possible core, printed at the end of a pass in debug mode.\<close>

fun status_loop :: "nat list \<Rightarrow> kernel \<Rightarrow> kernel" where
  "status_loop [] s = s"
| "status_loop (cpu # cpus) s =
     (if cpu \<notin> cpu_possible_mask s then status_loop cpus s
      else status_loop cpus (pr_info (CPU_status cpu (cpu_online s cpu)) s))"

definition debug_report :: "kernel \<Rightarrow> kernel" where
  "debug_report s =
     (if debug (helper s) \<noteq> 0
      then status_loop [0..<NR_CPUS s] (pr_info (Target_requested (target_cpus s)) s)
      else s)"

definition state_helper_work :: "kernel \<Rightarrow> kernel" where
  "state_helper_work s =
     (let s1 = s\<lparr>target_cpus :=
                  (if state_suspended s then DEFAULT_SUSP_CPUS
                   else max_cpus_online (helper s))\<rparr>
      in if target_cpus s1 < num_online_cpus s1
           then debug_report (offline_loop [0..<NR_CPUS s1] s1)
         else if target_cpus s1 > num_online_cpus s1
           then debug_report (online_loop [0..<NR_CPUS s1] s1)
         else dprintk (Target_achieved (target_cpus s1)) s1)"

subsection \<open>Scheduling, start and stop\<close>

text \<open>
  Modelled from the spec: the work queue (linux/workqueue.h), not part of this file.
  Queueing the one work item with no delay marks it pending, and does nothing when it is
  pending already; the worker, or a flush of the queue, runs a pending item once.
\<close>

definition queue_delayed_work :: "kernel \<Rightarrow> kernel" where
  "queue_delayed_work s = s\<lparr>work_pending := True\<rparr>"

definition run_work :: "kernel \<Rightarrow> kernel" where
  "run_work s =
     (if work_pending s then state_helper_work (s\<lparr>work_pending := False\<rparr>) else s)"

definition flush_workqueue :: "kernel \<Rightarrow> kernel" where
  "flush_workqueue s = run_work s"

definition cancel_delayed_work_sync :: "kernel \<Rightarrow> kernel" where
  "cancel_delayed_work_sync s = s\<lparr>work_pending := False\<rparr>"

definition reschedule_work :: "kernel \<Rightarrow> kernel" where
  "reschedule_work s = queue_delayed_work s"

definition state_notifier_callback :: "kernel \<Rightarrow> notify \<times> kernel" where
  "state_notifier_callback s =
     (if enabled (helper s) = 0 then (NOTIFY_OK, s)
      else (NOTIFY_OK, reschedule_work s))"

text \<open>The assignment \<open>helper.enabled = val\<close>.\<close>

definition set_enabled :: "nat \<Rightarrow> kernel \<Rightarrow> kernel" where
  "set_enabled val s = s\<lparr>helper := (helper s)\<lparr>enabled := val\<rparr>\<rparr>"

text \<open>
  \<open>state_helper_start\<close>: a failed allocation goes to \<open>err_out\<close>, a failed
  registration to \<open>err_dev\<close>, which destroys the queue and falls through to
  \<open>err_out\<close>. \<open>INIT_DELAYED_WORK\<close> resets the work item before it is queued.
\<close>

definition state_helper_start :: "kernel \<Rightarrow> kernel" where
  "state_helper_start s =
     (if alloc_workqueue_fails s
      then set_enabled 0 (pr_err Failed_allocate_workqueue (s\<lparr>helper_wq := False\<rparr>))
      else
        let s1 = s\<lparr>helper_wq := True, notifier_call := True\<rparr>
        in if state_register_client_fails s1
           then set_enabled 0 ((pr_err Failed_register_notifier s1)\<lparr>helper_wq := False\<rparr>)
           else reschedule_work (s1\<lparr>notifier_registered := True, work_pending := False\<rparr>))"

text \<open>The loop of \<open>state_helper_stop\<close> that wakes the cores that are not online.\<close>

fun wake_loop :: "nat list \<Rightarrow> kernel \<Rightarrow> kernel" where
  "wake_loop [] s = s"
| "wake_loop (cpu # cpus) s =
     (if cpu \<notin> cpu_possible_mask s then wake_loop cpus s
      else if \<not> cpu_online s cpu then wake_loop cpus (cpu_up cpu s)
      else wake_loop cpus s)"

text \<open>The first half of \<open>state_helper_stop\<close>: the notifier is gone and no pass is left.\<close>

definition stop_drain :: "kernel \<Rightarrow> kernel" where
  "stop_drain s =
     cancel_delayed_work_sync
       (flush_workqueue (s\<lparr>notifier_registered := False, notifier_call := False\<rparr>))"

definition state_helper_stop :: "kernel \<Rightarrow> kernel" where
  "state_helper_stop s =
     (let s1 = stop_drain s in wake_loop [0..<NR_CPUS s1] s1)"

subsection \<open>The sysfs attributes\<close>

text \<open>
  \<open>sscanf(buf, "%u", &val)\<close> is the kernel's, not this file's: the store functions take
  the scanner as the parameter \<open>scan\<close>, which gives the value read, or \<open>None\<close> when
  the call does not return 1; \<open>sscanf_u\<close> below is the kernel's scanner. A store returns the byte count it was given, or \<open>-EINVAL\<close>.
  The value is unsigned, so the source's test \<open>val < 0\<close> never holds and has no branch
  here.
\<close>

text \<open>
  Modelled from the spec: the attribute plumbing, which the spec takes as given. The
  scanner the driver names is the kernel's \<open>sscanf\<close> (lib/vsprintf.c and lib/ctype.c,
  not part of this file), here for the one format \<open>"%u"\<close> the driver uses. It returns 0
  on an empty buffer; otherwise it skips white space and returns 0 unless a decimal
  digit follows; otherwise \<open>simple_strtoul\<close> reads the digits that follow, in 64 bits
  that wrap around, the value is cut to the 32 bits of the \<open>unsigned int\<close> it is stored
  in, and the call returns 1. What follows the digits is not looked at.
\<close>

definition isspace :: "char \<Rightarrow> bool" where
  "isspace c = (let n = (of_char c :: nat) in (9 \<le> n \<and> n \<le> 13) \<or> n = 32 \<or> n = 160)"

definition isdigit :: "char \<Rightarrow> bool" where
  "isdigit c = (let n = (of_char c :: nat) in 48 \<le> n \<and> n \<le> 57)"

definition skip_spaces :: "string \<Rightarrow> string" where
  "skip_spaces str = dropWhile isspace str"

fun simple_strtoul :: "nat \<Rightarrow> string \<Rightarrow> nat" where
  "simple_strtoul res [] = res"
| "simple_strtoul res (c # cs) =
     (if isdigit c then simple_strtoul ((res * 10 + (of_char c - 48)) mod 2 ^ 64) cs
      else res)"

definition sscanf_u :: "string \<Rightarrow> nat option" where
  "sscanf_u buf =
     (if buf = [] then None
      else case skip_spaces buf of
             [] \<Rightarrow> None
           | digit # rest \<Rightarrow>
               if \<not> isdigit digit then None
               else Some (simple_strtoul 0 (digit # rest) mod 2 ^ 32))"

definition store_enabled ::
  "(string \<Rightarrow> nat option) \<Rightarrow> string \<Rightarrow> nat \<Rightarrow> kernel \<Rightarrow> (error + nat) \<times> kernel" where
  "store_enabled scan buf count s =
     (case scan buf of
        None \<Rightarrow> (Inl EINVAL, s)
      | Some val \<Rightarrow>
          if val > 1 then (Inl EINVAL, s)
          else if val = enabled (helper s) then (Inr count, s)
          else
            let s1 = set_enabled val s
            in if enabled (helper s1) \<noteq> 0 then (Inr count, state_helper_start s1)
               else (Inr count, state_helper_stop s1))"

definition store_max_cpus_online ::
  "(string \<Rightarrow> nat option) \<Rightarrow> string \<Rightarrow> nat \<Rightarrow> kernel \<Rightarrow> (error + nat) \<times> kernel" where
  "store_max_cpus_online scan buf count s =
     (case scan buf of
        None \<Rightarrow> (Inl EINVAL, s)
      | Some val \<Rightarrow>
          if val < 1 \<or> val > NR_CPUS s then (Inl EINVAL, s)
          else
            let s1 = s\<lparr>helper := (helper s)\<lparr>max_cpus_online := val\<rparr>\<rparr>
            in if enabled (helper s1) \<noteq> 0 then (Inr count, reschedule_work s1)
               else (Inr count, s1))"

definition store_debug_mask ::
  "(string \<Rightarrow> nat option) \<Rightarrow> string \<Rightarrow> nat \<Rightarrow> kernel \<Rightarrow> (error + nat) \<times> kernel" where
  "store_debug_mask scan buf count s =
     (case scan buf of
        None \<Rightarrow> (Inl EINVAL, s)
      | Some val \<Rightarrow>
          if val > 1 then (Inl EINVAL, s)
          else if val = debug (helper s) then (Inr count, s)
          else (Inr count, s\<lparr>helper := (helper s)\<lparr>debug := val\<rparr>\<rparr>))"

subsection \<open>Probe and remove\<close>

text \<open>
  The probe also creates the sysfs group and returns the outcome of that; the group is
  the three attributes above and has no state of its own here.
\<close>

definition state_helper_probe :: "kernel \<Rightarrow> kernel" where
  "state_helper_probe s = (if enabled (helper s) \<noteq> 0 then state_helper_start s else s)"

definition state_helper_remove :: "kernel \<Rightarrow> kernel" where
  "state_helper_remove s = (if enabled (helper s) \<noteq> 0 then state_helper_stop s else s)"

subsection \<open>Runs of the driver\<close>

text \<open>
  What can happen to a loaded driver: the state subsystem delivers a notification (to a
  registered callback), the worker runs the pending pass, an operator writes one of the
  three attributes, the platform device is probed or removed, and the suspend flag
  changes outside the driver. Each of them runs to its end before the next one starts.
  Which notifications arrive is the state subsystem's doing (\<open>state_register_client\<close>,
  \<open>state_unregister_client\<close>): a callback is called while it is registered.
\<close>

datatype event =
    Notify
  | Worker
  | Write_enabled string nat
  | Write_max_cpus_online string nat
  | Write_debug_mask string nat
  | Probe
  | Remove
  | Suspend bool

fun step :: "(string \<Rightarrow> nat option) \<Rightarrow> event \<Rightarrow> kernel \<Rightarrow> kernel" where
  "step scan Notify s =
     (if notifier_registered s \<and> notifier_call s then snd (state_notifier_callback s) else s)"
| "step scan Worker s = run_work s"
| "step scan (Write_enabled buf count) s = snd (store_enabled scan buf count s)"
| "step scan (Write_max_cpus_online buf count) s = snd (store_max_cpus_online scan buf count s)"
| "step scan (Write_debug_mask buf count) s = snd (store_debug_mask scan buf count s)"
| "step scan Probe s = state_helper_probe s"
| "step scan Remove s = state_helper_remove s"
| "step scan (Suspend b) s = s\<lparr>state_suspended := b\<rparr>"

fun run :: "(string \<Rightarrow> nat option) \<Rightarrow> event list \<Rightarrow> kernel \<Rightarrow> kernel" where
  "run scan [] s = s"
| "run scan (e # es) s = run scan es (step scan e s)"

text \<open>The state at module load: the static initialisers, nothing queued, nothing logged.\<close>

definition loaded :: "kernel \<Rightarrow> bool" where
  "loaded s =
     (helper s = helper_init (NR_CPUS s) \<and> target_cpus s = 0 \<and> \<not> helper_wq s \<and>
      \<not> notifier_call s \<and> \<not> notifier_registered s \<and> \<not> work_pending s \<and>
      hotplug_log s = [] \<and> klog s = [])"

section \<open>The specification's vocabulary\<close>

text \<open>
  The spec's \<open>compute_target(suspended, max_online)\<close>, written from its words: the
  suspend floor of one core when suspended, the configured maximum otherwise.
\<close>

definition compute_target :: "bool \<Rightarrow> nat \<Rightarrow> nat" where
  "compute_target suspended max_online = (if suspended then 1 else max_online)"



text \<open>
  A platform as the kernel keeps it: the possible cores have ids below \<open>NR_CPUS\<close>, and
  only possible cores are online. Both masks are then finite.
\<close>

definition platform_ok :: "kernel \<Rightarrow> bool" where
  "platform_ok s =
     (cpu_possible_mask s \<subseteq> {0..<NR_CPUS s} \<and> cpu_online_mask s \<subseteq> cpu_possible_mask s)"

text \<open>
  The spec's offline step, in its words. The candidates are the online cores in ascending
  id order without core 0. After the cores \<open>cpus\<close> have been requested offline, those
  the platform did not refuse have left the online set. The pass stops after \<open>k\<close>
  candidates: it asks at least one when there is one, the live count is above the target
  before each request it makes, and it stops short of the last candidate only with the
  live count at or below the target.
\<close>

definition offline_candidates :: "kernel \<Rightarrow> nat list" where
  "offline_candidates s = [cpu \<leftarrow> [0..<NR_CPUS s]. cpu \<noteq> 0 \<and> cpu_online s cpu]"

definition online_after_down :: "nat set \<Rightarrow> nat set \<Rightarrow> nat list \<Rightarrow> nat set" where
  "online_after_down refused online cpus = online - (set cpus - refused)"

definition offline_stop :: "nat \<Rightarrow> nat set \<Rightarrow> nat set \<Rightarrow> nat list \<Rightarrow> nat \<Rightarrow> bool" where
  "offline_stop target refused online cands k =
     (k \<le> length cands \<and> (cands \<noteq> [] \<longrightarrow> 0 < k) \<and>
      (\<forall>j \<in> {0..<k}. target < card (online_after_down refused online (take j cands))) \<and>
      (k < length cands \<longrightarrow> card (online_after_down refused online (take k cands)) \<le> target))"

text \<open>
  From \<open>s\<close> to \<open>s'\<close> the driver has only added hotplug requests, and none of them asks
  core 0 to go offline.
\<close>

definition no_core0_offline :: "kernel \<Rightarrow> kernel \<Rightarrow> bool" where
  "no_core0_offline s s' =
     (\<exists>new. hotplug_log s' = hotplug_log s @ new \<and> Cpu_down 0 \<notin> set new)"

section \<open>Example platforms\<close>

text \<open>
  \<open>quad\<close>: a kernel built for four CPU ids on four cores, all online, the driver just
  loaded. \<open>octa_build\<close>: the same four cores under a kernel built for eight CPU ids.
  \<open>example_scan\<close> reads the few one-digit buffers the examples write.
\<close>

definition quad :: kernel where
  "quad =
     \<lparr>NR_CPUS = 4, cpu_possible_mask = {0, 1, 2, 3}, cpu_online_mask = {0, 1, 2, 3},
      down_refused = {}, up_refused = {}, state_suspended = False,
      alloc_workqueue_fails = False, state_register_client_fails = False,
      helper = helper_init 4, target_cpus = 0, helper_wq = False, notifier_call = False,
      notifier_registered = False, work_pending = False, hotplug_log = [], klog = []\<rparr>"

definition octa_build :: kernel where
  "octa_build = quad\<lparr>NR_CPUS := 8, helper := helper_init 8\<rparr>"

definition example_scan :: "string \<Rightarrow> nat option" where
  "example_scan = map_of [(''0'', 0), (''1'', 1), (''2'', 2), (''4'', 4), (''9'', 9)]"

section \<open>Properties\<close>

subsection \<open>The target of a pass\<close>

lemma offline_loop_target [simp]: "target_cpus (offline_loop cpus s) = target_cpus s"
  by (induction cpus arbitrary: s)
     (simp_all add: Let_def cpu_down_def dprintk_def pr_info_def)

lemma online_loop_target [simp]: "target_cpus (online_loop cpus s) = target_cpus s"
  by (induction cpus arbitrary: s)
     (simp_all add: cpu_up_def dprintk_def pr_info_def)

lemma status_loop_target [simp]: "target_cpus (status_loop cpus s) = target_cpus s"
  by (induction cpus arbitrary: s) (simp_all add: pr_info_def)

lemma debug_report_target [simp]: "target_cpus (debug_report s) = target_cpus s"
  by (simp add: debug_report_def pr_info_def)


subsection \<open>Core 0 is never asked to go offline\<close>

lemma no_core0_offline_refl [simp]: "no_core0_offline s s"
  by (simp add: no_core0_offline_def)

lemma no_core0_offline_trans:
  "no_core0_offline s t \<Longrightarrow> no_core0_offline t u \<Longrightarrow> no_core0_offline s u"
  by (auto simp: no_core0_offline_def)

lemma no_core0_offline_same_log:
  "hotplug_log t = hotplug_log s \<Longrightarrow> no_core0_offline s t"
  by (simp add: no_core0_offline_def)

lemma offline_loop_no_core0: "no_core0_offline s (offline_loop cpus s)"
proof (induction cpus arbitrary: s)
  case Nil
  show ?case by simp
next
  case (Cons cpu cpus)
  show ?case
  proof (cases "cpu_online s cpu \<and> cpu \<noteq> 0")
    case False
    then show ?thesis using Cons.IH [of s] by auto
  next
    case True
    let ?s' = "cpu_down cpu (dprintk (Switching_offline cpu) s)"
    have one: "no_core0_offline s ?s'"
      using True by (simp add: no_core0_offline_def cpu_down_def dprintk_def pr_info_def)
    have rest: "no_core0_offline ?s' (offline_loop cpus ?s')"
      by (rule Cons.IH)
    show ?thesis
      using True one no_core0_offline_trans [OF one rest] by (simp add: Let_def)
  qed
qed

lemma online_loop_no_core0: "no_core0_offline s (online_loop cpus s)"
proof (induction cpus arbitrary: s)
  case Nil
  show ?case by simp
next
  case (Cons cpu cpus)
  let ?s' = "dprintk (Switching_online cpu) (cpu_up cpu s)"
  have one: "no_core0_offline s ?s'"
    by (simp add: no_core0_offline_def cpu_up_def dprintk_def pr_info_def)
  have "no_core0_offline s (online_loop cpus ?s')"
    by (rule no_core0_offline_trans [OF one Cons.IH])
  then show ?case using Cons.IH [of s] by simp
qed

lemma wake_loop_no_core0: "no_core0_offline s (wake_loop cpus s)"
proof (induction cpus arbitrary: s)
  case Nil
  show ?case by simp
next
  case (Cons cpu cpus)
  have one: "no_core0_offline s (cpu_up cpu s)"
    by (simp add: no_core0_offline_def cpu_up_def)
  have "no_core0_offline s (wake_loop cpus (cpu_up cpu s))"
    by (rule no_core0_offline_trans [OF one Cons.IH])
  then show ?case using Cons.IH [of s] by simp
qed

lemma status_loop_hotplug_log [simp]: "hotplug_log (status_loop cpus s) = hotplug_log s"
  by (induction cpus arbitrary: s) (simp_all add: pr_info_def)

lemma debug_report_hotplug_log [simp]: "hotplug_log (debug_report s) = hotplug_log s"
  by (simp add: debug_report_def pr_info_def)

lemma work_no_core0: "no_core0_offline s (state_helper_work s)"
proof -
  let ?s1 = "s\<lparr>target_cpus := (if state_suspended s then DEFAULT_SUSP_CPUS
                                 else max_cpus_online (helper s))\<rparr>"
  have start: "no_core0_offline s ?s1"
    by (rule no_core0_offline_same_log) simp
  have off: "no_core0_offline s (debug_report (offline_loop cpus ?s1))" for cpus
    using no_core0_offline_trans [OF start offline_loop_no_core0 [of ?s1 cpus]]
    by (simp add: no_core0_offline_def)
  have on: "no_core0_offline s (debug_report (online_loop cpus ?s1))" for cpus
    using no_core0_offline_trans [OF start online_loop_no_core0 [of ?s1 cpus]]
    by (simp add: no_core0_offline_def)
  have same: "no_core0_offline s (dprintk m ?s1)" for m
    by (rule no_core0_offline_same_log) (simp add: dprintk_def pr_info_def)
  show ?thesis
    unfolding state_helper_work_def Let_def using off on same by simp
qed

lemma run_work_no_core0: "no_core0_offline s (run_work s)"
proof (cases "work_pending s")
  case True
  have "no_core0_offline s (s\<lparr>work_pending := False\<rparr>)"
    by (rule no_core0_offline_same_log) simp
  from no_core0_offline_trans [OF this work_no_core0] True show ?thesis
    by (simp add: run_work_def)
next
  case False
  then show ?thesis by (simp add: run_work_def)
qed

lemma stop_drain_no_core0: "no_core0_offline s (stop_drain s)"
proof -
  let ?s1 = "s\<lparr>notifier_registered := False, notifier_call := False\<rparr>"
  have a: "no_core0_offline s ?s1"
    by (rule no_core0_offline_same_log) simp
  have b: "no_core0_offline ?s1 (run_work ?s1)"
    by (rule run_work_no_core0)
  have c: "no_core0_offline (run_work ?s1) (cancel_delayed_work_sync (run_work ?s1))"
    by (rule no_core0_offline_same_log) (simp add: cancel_delayed_work_sync_def)
  show ?thesis
    unfolding stop_drain_def flush_workqueue_def
    by (rule no_core0_offline_trans [OF no_core0_offline_trans [OF a b] c])
qed

lemma stop_no_core0: "no_core0_offline s (state_helper_stop s)"
  unfolding state_helper_stop_def Let_def
  by (rule no_core0_offline_trans [OF stop_drain_no_core0 wake_loop_no_core0])

lemma start_hotplug_log [simp]: "hotplug_log (state_helper_start s) = hotplug_log s"
  by (simp add: state_helper_start_def Let_def pr_err_def reschedule_work_def
        queue_delayed_work_def set_enabled_def)

lemma step_no_core0: "no_core0_offline s (step scan e s)"
proof (cases e)
  case Notify
  then show ?thesis
    by (simp add: no_core0_offline_same_log state_notifier_callback_def
          reschedule_work_def queue_delayed_work_def)
next
  case Worker
  then show ?thesis by (simp add: run_work_no_core0)
next
  case (Write_enabled buf count)
  have "no_core0_offline s (state_helper_stop (set_enabled v s))" for v
    using no_core0_offline_trans [OF _ stop_no_core0 [of "set_enabled v s"]]
    by (simp add: no_core0_offline_same_log set_enabled_def)
  then show ?thesis using Write_enabled
    by (simp add: store_enabled_def Let_def no_core0_offline_same_log set_enabled_def
          split: option.splits)
next
  case (Write_max_cpus_online buf count)
  then show ?thesis
    by (simp add: store_max_cpus_online_def Let_def reschedule_work_def
          queue_delayed_work_def no_core0_offline_same_log split: option.splits)
next
  case (Write_debug_mask buf count)
  then show ?thesis
    by (simp add: store_debug_mask_def no_core0_offline_same_log split: option.splits)
next
  case Probe
  then show ?thesis by (simp add: state_helper_probe_def no_core0_offline_same_log)
next
  case Remove
  then show ?thesis by (simp add: state_helper_remove_def stop_no_core0)
next
  case (Suspend b)
  then show ?thesis by (simp add: no_core0_offline_same_log)
qed

lemma run_no_core0: "no_core0_offline s (run scan es s)"
proof (induction es arbitrary: s)
  case Nil
  show ?case by simp
next
  case (Cons e es)
  show ?case
    using no_core0_offline_trans [OF step_no_core0 Cons.IH] by simp
qed


subsection \<open>What a pass leaves alone\<close>

lemma offline_loop_frame [simp]:
  "helper (offline_loop cpus s) = helper s"
  "state_suspended (offline_loop cpus s) = state_suspended s"
  "NR_CPUS (offline_loop cpus s) = NR_CPUS s"
  "cpu_possible_mask (offline_loop cpus s) = cpu_possible_mask s"
  "down_refused (offline_loop cpus s) = down_refused s"
  "up_refused (offline_loop cpus s) = up_refused s"
  "work_pending (offline_loop cpus s) = work_pending s"
  "notifier_registered (offline_loop cpus s) = notifier_registered s"
  "notifier_call (offline_loop cpus s) = notifier_call s"
  "helper_wq (offline_loop cpus s) = helper_wq s"
  "alloc_workqueue_fails (offline_loop cpus s) = alloc_workqueue_fails s"
  "state_register_client_fails (offline_loop cpus s) = state_register_client_fails s"
  by (induction cpus arbitrary: s; simp add: Let_def cpu_down_def dprintk_def pr_info_def)+

lemma online_loop_frame [simp]:
  "helper (online_loop cpus s) = helper s"
  "state_suspended (online_loop cpus s) = state_suspended s"
  "NR_CPUS (online_loop cpus s) = NR_CPUS s"
  "cpu_possible_mask (online_loop cpus s) = cpu_possible_mask s"
  "down_refused (online_loop cpus s) = down_refused s"
  "up_refused (online_loop cpus s) = up_refused s"
  "work_pending (online_loop cpus s) = work_pending s"
  "notifier_registered (online_loop cpus s) = notifier_registered s"
  "notifier_call (online_loop cpus s) = notifier_call s"
  "helper_wq (online_loop cpus s) = helper_wq s"
  "alloc_workqueue_fails (online_loop cpus s) = alloc_workqueue_fails s"
  "state_register_client_fails (online_loop cpus s) = state_register_client_fails s"
  by (induction cpus arbitrary: s; simp add: cpu_up_def dprintk_def pr_info_def)+

lemma status_loop_frame [simp]:
  "helper (status_loop cpus s) = helper s"
  "state_suspended (status_loop cpus s) = state_suspended s"
  "NR_CPUS (status_loop cpus s) = NR_CPUS s"
  "cpu_possible_mask (status_loop cpus s) = cpu_possible_mask s"
  "down_refused (status_loop cpus s) = down_refused s"
  "up_refused (status_loop cpus s) = up_refused s"
  "work_pending (status_loop cpus s) = work_pending s"
  "notifier_registered (status_loop cpus s) = notifier_registered s"
  "notifier_call (status_loop cpus s) = notifier_call s"
  "helper_wq (status_loop cpus s) = helper_wq s"
  "alloc_workqueue_fails (status_loop cpus s) = alloc_workqueue_fails s"
  "state_register_client_fails (status_loop cpus s) = state_register_client_fails s"
  "cpu_online_mask (status_loop cpus s) = cpu_online_mask s"
  by (induction cpus arbitrary: s; simp add: pr_info_def)+

lemma debug_report_frame [simp]:
  "helper (debug_report s) = helper s"
  "state_suspended (debug_report s) = state_suspended s"
  "NR_CPUS (debug_report s) = NR_CPUS s"
  "cpu_possible_mask (debug_report s) = cpu_possible_mask s"
  "down_refused (debug_report s) = down_refused s"
  "up_refused (debug_report s) = up_refused s"
  "work_pending (debug_report s) = work_pending s"
  "notifier_registered (debug_report s) = notifier_registered s"
  "notifier_call (debug_report s) = notifier_call s"
  "helper_wq (debug_report s) = helper_wq s"
  "alloc_workqueue_fails (debug_report s) = alloc_workqueue_fails s"
  "state_register_client_fails (debug_report s) = state_register_client_fails s"
  "cpu_online_mask (debug_report s) = cpu_online_mask s"
  by (simp_all add: debug_report_def pr_info_def)

lemma num_online_cpus_debug_report [simp]:
  "num_online_cpus (debug_report s) = num_online_cpus s"
  by (simp add: num_online_cpus_def)

lemma work_frame [simp]:
  "helper (state_helper_work s) = helper s"
  "state_suspended (state_helper_work s) = state_suspended s"
  "NR_CPUS (state_helper_work s) = NR_CPUS s"
  "cpu_possible_mask (state_helper_work s) = cpu_possible_mask s"
  "down_refused (state_helper_work s) = down_refused s"
  "up_refused (state_helper_work s) = up_refused s"
  "work_pending (state_helper_work s) = work_pending s"
  "notifier_registered (state_helper_work s) = notifier_registered s"
  "notifier_call (state_helper_work s) = notifier_call s"
  "helper_wq (state_helper_work s) = helper_wq s"
  "alloc_workqueue_fails (state_helper_work s) = alloc_workqueue_fails s"
  "state_register_client_fails (state_helper_work s) = state_register_client_fails s"
  by (simp_all add: state_helper_work_def Let_def dprintk_def pr_info_def)

lemma work_target:
  "target_cpus (state_helper_work s)
     = (if state_suspended s then DEFAULT_SUSP_CPUS else max_cpus_online (helper s))"
  by (simp add: state_helper_work_def Let_def dprintk_def pr_info_def)

subsection \<open>The enabled flag is not read by a pass\<close>

lemma set_enabled_reads [simp]:
  "cpu_online (set_enabled e s) cpu = cpu_online s cpu"
  "num_online_cpus (set_enabled e s) = num_online_cpus s"
  "target_cpus (set_enabled e s) = target_cpus s"
  "cpu_possible_mask (set_enabled e s) = cpu_possible_mask s"
  "NR_CPUS (set_enabled e s) = NR_CPUS s"
  "state_suspended (set_enabled e s) = state_suspended s"
  "debug (helper (set_enabled e s)) = debug (helper s)"
  "max_cpus_online (helper (set_enabled e s)) = max_cpus_online (helper s)"
  by (simp_all add: set_enabled_def cpu_online_def num_online_cpus_def)

lemma set_enabled_commutes:
  "cpu_down cpu (set_enabled e s) = set_enabled e (cpu_down cpu s)"
  "cpu_up cpu (set_enabled e s) = set_enabled e (cpu_up cpu s)"
  "pr_info m (set_enabled e s) = set_enabled e (pr_info m s)"
  "dprintk m (set_enabled e s) = set_enabled e (dprintk m s)"
  "(set_enabled e s)\<lparr>target_cpus := t\<rparr> = set_enabled e (s\<lparr>target_cpus := t\<rparr>)"
  by (simp_all add: set_enabled_def cpu_down_def cpu_up_def pr_info_def dprintk_def)

lemma offline_loop_enabled:
  "offline_loop cpus (set_enabled e s) = set_enabled e (offline_loop cpus s)"
  by (induction cpus arbitrary: s) (simp_all add: Let_def set_enabled_commutes)

lemma online_loop_enabled:
  "online_loop cpus (set_enabled e s) = set_enabled e (online_loop cpus s)"
  by (induction cpus arbitrary: s) (simp_all add: set_enabled_commutes)

lemma status_loop_enabled:
  "status_loop cpus (set_enabled e s) = set_enabled e (status_loop cpus s)"
  by (induction cpus arbitrary: s) (simp_all add: set_enabled_commutes)

lemma debug_report_enabled:
  "debug_report (set_enabled e s) = set_enabled e (debug_report s)"
  by (simp add: debug_report_def set_enabled_commutes status_loop_enabled)

lemma work_enabled:
  "state_helper_work (set_enabled e s) = set_enabled e (state_helper_work s)"
  by (simp add: state_helper_work_def Let_def set_enabled_commutes offline_loop_enabled
        online_loop_enabled debug_report_enabled)


subsection \<open>Stopping wakes every core\<close>

lemma wake_loop_frame [simp]:
  "helper (wake_loop cpus s) = helper s"
  "state_suspended (wake_loop cpus s) = state_suspended s"
  "NR_CPUS (wake_loop cpus s) = NR_CPUS s"
  "cpu_possible_mask (wake_loop cpus s) = cpu_possible_mask s"
  "down_refused (wake_loop cpus s) = down_refused s"
  "up_refused (wake_loop cpus s) = up_refused s"
  "work_pending (wake_loop cpus s) = work_pending s"
  "notifier_registered (wake_loop cpus s) = notifier_registered s"
  "notifier_call (wake_loop cpus s) = notifier_call s"
  "helper_wq (wake_loop cpus s) = helper_wq s"
  "alloc_workqueue_fails (wake_loop cpus s) = alloc_workqueue_fails s"
  "state_register_client_fails (wake_loop cpus s) = state_register_client_fails s"
  "target_cpus (wake_loop cpus s) = target_cpus s"
  "klog (wake_loop cpus s) = klog s"
  by (induction cpus arbitrary: s; simp add: cpu_up_def)+

lemma wake_loop_log:
  "distinct cpus \<Longrightarrow>
   hotplug_log (wake_loop cpus s)
     = hotplug_log s @ map Cpu_up [cpu \<leftarrow> cpus. cpu \<in> cpu_possible_mask s \<and> \<not> cpu_online s cpu]"
proof (induction cpus arbitrary: s)
  case Nil
  show ?case by simp
next
  case (Cons cpu cpus)
  have same: "[c \<leftarrow> cpus. c \<in> cpu_possible_mask (cpu_up cpu s) \<and> \<not> cpu_online (cpu_up cpu s) c]
      = [c \<leftarrow> cpus. c \<in> cpu_possible_mask s \<and> \<not> cpu_online s c]"
    using Cons.prems by (auto simp: cpu_up_def cpu_online_def intro!: filter_cong)
  have log: "hotplug_log (cpu_up cpu s) = hotplug_log s @ [Cpu_up cpu]"
    by (simp add: cpu_up_def)
  show ?case
    using Cons.prems Cons.IH [of s] Cons.IH [of "cpu_up cpu s"] same log by simp
qed

lemma wake_loop_online:
  "cpu_online_mask (wake_loop cpus s)
     = cpu_online_mask s \<union> {cpu \<in> set cpus. cpu \<in> cpu_possible_mask s \<and> cpu \<notin> up_refused s}"
proof (induction cpus arbitrary: s)
  case Nil
  show ?case by simp
next
  case (Cons cpu cpus)
  show ?case
    using Cons.IH [of s] Cons.IH [of "cpu_up cpu s"]
    by (auto simp: cpu_up_def cpu_online_def)
qed

lemma stop_drain_flags:
  "\<not> notifier_registered (stop_drain s)" "\<not> work_pending (stop_drain s)"
  by (simp_all add: stop_drain_def cancel_delayed_work_sync_def flush_workqueue_def
        run_work_def)

text \<open>
  C6. \<open>state_helper_stop\<close> first unregisters the notifier and drains the work queue
  (\<open>stop_drain\<close>: afterwards no callback is registered and no pass is pending). Then,
  whatever the configuration and the last target, it asks every possible core that is
  not online at that point to come online, in ascending id order, and asks nothing else:
  the requests it adds are exactly \<open>Cpu_up\<close> for those cores. The cores online when
  it returns are those online after the drain and every possible core the platform did
  not refuse.
\<close>

theorem stop_requests_every_offline_core:
  "hotplug_log (state_helper_stop s)
     = hotplug_log (stop_drain s)
       @ map Cpu_up [cpu \<leftarrow> [0..<NR_CPUS (stop_drain s)].
                      cpu \<in> cpu_possible_mask (stop_drain s) \<and> \<not> cpu_online (stop_drain s) cpu]
   \<and> cpu_online_mask (state_helper_stop s)
     = cpu_online_mask (stop_drain s)
       \<union> {cpu. cpu < NR_CPUS (stop_drain s) \<and> cpu \<in> cpu_possible_mask (stop_drain s)
                \<and> cpu \<notin> up_refused (stop_drain s)}
   \<and> \<not> notifier_registered (state_helper_stop s) \<and> \<not> work_pending (state_helper_stop s)"
  unfolding state_helper_stop_def Let_def
  by (simp add: wake_loop_log wake_loop_online stop_drain_flags)


subsection \<open>Counting the online cores\<close>

lemma cpu_down_online:
  "cpu_online_mask (cpu_down cpu (dprintk m s))
     = (if cpu \<in> cpu_online_mask s \<and> cpu \<notin> down_refused s
        then cpu_online_mask s - {cpu} else cpu_online_mask s)"
  by (auto simp: cpu_down_def dprintk_def pr_info_def)

lemma cpu_down_other [simp]:
  "target_cpus (cpu_down cpu (dprintk m s)) = target_cpus s"
  "down_refused (cpu_down cpu (dprintk m s)) = down_refused s"
  "hotplug_log (cpu_down cpu (dprintk m s)) = hotplug_log s @ [Cpu_down cpu]"
  by (simp_all add: cpu_down_def dprintk_def pr_info_def)

lemma cpu_up_online:
  "cpu_online_mask (dprintk m (cpu_up cpu s))
     = (if cpu \<in> cpu_possible_mask s \<and> cpu \<notin> up_refused s
        then insert cpu (cpu_online_mask s) else cpu_online_mask s)"
  by (auto simp: cpu_up_def dprintk_def pr_info_def)

lemma cpu_up_other [simp]:
  "target_cpus (dprintk m (cpu_up cpu s)) = target_cpus s"
  "up_refused (dprintk m (cpu_up cpu s)) = up_refused s"
  "cpu_possible_mask (dprintk m (cpu_up cpu s)) = cpu_possible_mask s"
  "hotplug_log (dprintk m (cpu_up cpu s)) = hotplug_log s @ [Cpu_up cpu]"
  by (simp_all add: cpu_up_def dprintk_def pr_info_def)

lemma offline_loop_subset:
  "cpu_online_mask (offline_loop cpus s) \<subseteq> cpu_online_mask s"
proof (induction cpus arbitrary: s)
  case Nil
  show ?case by simp
next
  case (Cons cpu cpus)
  let ?s' = "cpu_down cpu (dprintk (Switching_offline cpu) s)"
  have "cpu_online_mask ?s' \<subseteq> cpu_online_mask s"
    by (auto simp: cpu_down_online)
  with Cons.IH [of ?s'] have "cpu_online_mask (offline_loop cpus ?s') \<subseteq> cpu_online_mask s"
    by blast
  with Cons.IH [of s] \<open>cpu_online_mask ?s' \<subseteq> cpu_online_mask s\<close> show ?case
    by (simp add: Let_def)
qed

lemma offline_loop_keeps_core0:
  "0 \<in> cpu_online_mask s \<Longrightarrow> 0 \<in> cpu_online_mask (offline_loop cpus s)"
proof (induction cpus arbitrary: s)
  case Nil
  then show ?case by simp
next
  case (Cons cpu cpus)
  let ?s' = "cpu_down cpu (dprintk (Switching_offline cpu) s)"
  have "cpu \<noteq> 0 \<Longrightarrow> 0 \<in> cpu_online_mask ?s'"
    using Cons.prems by (simp add: cpu_down_online)
  with Cons.IH [of ?s'] Cons.IH [of s] Cons.prems show ?case
    by (simp add: Let_def)
qed

lemma offline_loop_count:
  "distinct cpus \<Longrightarrow> finite (cpu_online_mask s) \<Longrightarrow> down_refused s \<inter> set cpus = {} \<Longrightarrow>
   target_cpus s < num_online_cpus s \<Longrightarrow>
   num_online_cpus (offline_loop cpus s)
     = max (target_cpus s) (card (cpu_online_mask s - (set cpus - {0})))"
proof (induction cpus arbitrary: s)
  case Nil
  then show ?case by (simp add: num_online_cpus_def)
next
  case (Cons cpu cpus)
  define left where "left = cpu_online_mask s - (set (cpu # cpus) - {0})"
  show ?case
  proof (cases "cpu_online s cpu \<and> cpu \<noteq> 0")
    case False
    then have "left = cpu_online_mask s - (set cpus - {0})"
      by (auto simp: left_def cpu_online_def)
    moreover have "offline_loop (cpu # cpus) s = offline_loop cpus s"
      using False by auto
    ultimately show ?thesis
      unfolding left_def [symmetric] using Cons.IH [of s] Cons.prems by simp
  next
    case True
    let ?s' = "cpu_down cpu (dprintk (Switching_offline cpu) s)"
    have mask: "cpu_online_mask ?s' = cpu_online_mask s - {cpu}"
      using True Cons.prems(3) by (simp add: cpu_down_online cpu_online_def)
    have count: "num_online_cpus ?s' = num_online_cpus s - 1"
      using True Cons.prems(2) by (simp add: mask num_online_cpus_def cpu_online_def)
    have rest: "left = cpu_online_mask ?s' - (set cpus - {0})"
      using True by (auto simp: mask left_def)
    show ?thesis
    proof (cases "target_cpus ?s' \<ge> num_online_cpus ?s'")
      case True
      have "card left \<le> num_online_cpus ?s'"
        unfolding num_online_cpus_def rest using Cons.prems(2)
        by (intro card_mono) (auto simp: mask)
      moreover have "offline_loop (cpu # cpus) s = ?s'"
        using True \<open>cpu_online s cpu \<and> cpu \<noteq> 0\<close> by (simp add: Let_def)
      ultimately show ?thesis
        unfolding left_def [symmetric] using True Cons.prems(4) count by simp
    next
      case False
      have "num_online_cpus (offline_loop cpus ?s')
          = max (target_cpus ?s') (card (cpu_online_mask ?s' - (set cpus - {0})))"
        using Cons.prems False by (intro Cons.IH) (auto simp: mask)
      moreover have "offline_loop (cpu # cpus) s = offline_loop cpus ?s'"
        using False \<open>cpu_online s cpu \<and> cpu \<noteq> 0\<close> by (simp add: Let_def)
      ultimately show ?thesis
        unfolding left_def [symmetric] rest by simp
    qed
  qed
qed

lemma online_loop_superset:
  "cpu_online_mask s \<subseteq> cpu_online_mask (online_loop cpus s)"
proof (induction cpus arbitrary: s)
  case Nil
  show ?case by simp
next
  case (Cons cpu cpus)
  let ?s' = "dprintk (Switching_online cpu) (cpu_up cpu s)"
  have "cpu_online_mask s \<subseteq> cpu_online_mask ?s'"
    by (auto simp: cpu_up_online)
  with Cons.IH [of ?s'] have "cpu_online_mask s \<subseteq> cpu_online_mask (online_loop cpus ?s')"
    by blast
  with Cons.IH [of s] show ?case by simp
qed

lemma online_loop_within_possible:
  "cpu_online_mask s \<subseteq> cpu_possible_mask s \<Longrightarrow>
   cpu_online_mask (online_loop cpus s) \<subseteq> cpu_possible_mask s"
proof (induction cpus arbitrary: s)
  case Nil
  then show ?case by simp
next
  case (Cons cpu cpus)
  let ?s' = "dprintk (Switching_online cpu) (cpu_up cpu s)"
  have "cpu_online_mask ?s' \<subseteq> cpu_possible_mask ?s'"
    using Cons.prems by (auto simp: cpu_up_online)
  with Cons.IH [of ?s'] Cons.IH [of s] Cons.prems show ?case by simp
qed

lemma online_loop_count:
  "finite (cpu_online_mask s) \<Longrightarrow> up_refused s \<inter> set cpus = {} \<Longrightarrow>
   num_online_cpus (online_loop cpus s)
     = (if target_cpus s \<le> num_online_cpus s then num_online_cpus s
        else min (target_cpus s)
               (card (cpu_online_mask s \<union> (cpu_possible_mask s \<inter> set cpus))))"
proof (induction cpus arbitrary: s)
  case Nil
  then show ?case by (simp add: num_online_cpus_def)
next
  case (Cons cpu cpus)
  define reach where "reach = cpu_online_mask s \<union> (cpu_possible_mask s \<inter> set (cpu # cpus))"
  consider (skip) "cpu \<notin> cpu_possible_mask s"
    | (reached) "cpu \<in> cpu_possible_mask s" "target_cpus s \<le> num_online_cpus s"
    | (up) "cpu \<in> cpu_possible_mask s" "\<not> target_cpus s \<le> num_online_cpus s"
        "\<not> cpu_online s cpu"
    | (on) "cpu \<in> cpu_possible_mask s" "\<not> target_cpus s \<le> num_online_cpus s"
        "cpu_online s cpu"
    by blast
  then show ?case
  proof cases
    case skip
    then have "reach = cpu_online_mask s \<union> (cpu_possible_mask s \<inter> set cpus)"
      by (auto simp: reach_def)
    moreover have "online_loop (cpu # cpus) s = online_loop cpus s"
      using skip by simp
    ultimately show ?thesis
      unfolding reach_def [symmetric] using Cons.IH [of s] Cons.prems by simp
  next
    case reached
    then show ?thesis by simp
  next
    case up
    let ?s' = "dprintk (Switching_online cpu) (cpu_up cpu s)"
    have mask: "cpu_online_mask ?s' = insert cpu (cpu_online_mask s)"
      using up Cons.prems(2) by (simp add: cpu_up_online)
    have count: "num_online_cpus ?s' = Suc (num_online_cpus s)"
      using up Cons.prems(1) by (simp add: mask num_online_cpus_def cpu_online_def)
    have sets: "cpu_online_mask ?s' \<union> (cpu_possible_mask ?s' \<inter> set cpus) = reach"
      using up by (auto simp: mask reach_def)
    have raw: "num_online_cpus (online_loop cpus ?s')
        = (if target_cpus ?s' \<le> num_online_cpus ?s' then num_online_cpus ?s'
           else min (target_cpus ?s')
                  (card (cpu_online_mask ?s' \<union> (cpu_possible_mask ?s' \<inter> set cpus))))"
      using Cons.prems by (intro Cons.IH) (auto simp: mask)
    have ih: "num_online_cpus (online_loop cpus ?s')
        = (if target_cpus s \<le> Suc (num_online_cpus s) then Suc (num_online_cpus s)
           else min (target_cpus s) (card reach))"
      using raw unfolding sets count by simp
    have "finite reach"
      using Cons.prems(1) by (simp add: reach_def)
    then have "num_online_cpus ?s' \<le> card reach"
      unfolding num_online_cpus_def by (intro card_mono) (auto simp: mask reach_def up)
    then have le: "Suc (num_online_cpus s) \<le> card reach"
      by (simp only: count)
    have step: "online_loop (cpu # cpus) s = online_loop cpus ?s'"
      using up by simp
    show ?thesis
      unfolding reach_def [symmetric] step ih using up(2) le by (simp add: min_def)
  next
    case on
    then have "reach = cpu_online_mask s \<union> (cpu_possible_mask s \<inter> set cpus)"
      by (auto simp: reach_def cpu_online_def)
    moreover have "online_loop (cpu # cpus) s = online_loop cpus s"
      using on by simp
    ultimately show ?thesis
      unfolding reach_def [symmetric] using Cons.IH [of s] Cons.prems by simp
  qed
qed


subsection \<open>The offline loop, request by request\<close>

lemma online_after_down_Cons:
  "online_after_down R on (c # cs) = online_after_down R (on - ({c} - R)) cs"
  by (auto simp: online_after_down_def)

lemma offline_stop_Nil: "offline_stop t R on [] 0"
  by (simp add: offline_stop_def)

lemma offline_stop_break:
  "t < card on \<Longrightarrow> card (on - ({c} - R)) \<le> t \<Longrightarrow> offline_stop t R on (c # cs) (Suc 0)"
  by (simp add: offline_stop_def online_after_down_def)

lemma offline_stop_continue:
  assumes "offline_stop t R (on - ({c} - R)) cs k" and "t < card on"
    and "t < card (on - ({c} - R))"
  shows "offline_stop t R on (c # cs) (Suc k)"
proof -
  have "t < card (online_after_down R on (take j (c # cs)))" if "j \<in> {0..<Suc k}" for j
  proof (cases j)
    case 0
    then show ?thesis using assms(2) by (simp add: online_after_down_def)
  next
    case (Suc j')
    with that have "j' < k" by simp
    with assms(1) have "t < card (online_after_down R (on - ({c} - R)) (take j' cs))"
      by (simp add: offline_stop_def)
    then show ?thesis by (simp add: Suc online_after_down_Cons)
  qed
  moreover have "card (online_after_down R on (take (Suc k) (c # cs))) \<le> t"
    if "Suc k < length (c # cs)"
    using that assms(1) by (simp add: offline_stop_def online_after_down_Cons)
  moreover have "Suc k \<le> length (c # cs)"
    using assms(1) by (simp add: offline_stop_def)
  ultimately show ?thesis
    unfolding offline_stop_def by blast
qed

lemma offline_loop_requests:
  "distinct cpus \<Longrightarrow> target_cpus s < num_online_cpus s \<Longrightarrow>
   \<exists>k. offline_stop (target_cpus s) (down_refused s) (cpu_online_mask s)
          [cpu \<leftarrow> cpus. cpu \<noteq> 0 \<and> cpu_online s cpu] k
      \<and> hotplug_log (offline_loop cpus s)
          = hotplug_log s @ map Cpu_down (take k [cpu \<leftarrow> cpus. cpu \<noteq> 0 \<and> cpu_online s cpu])
      \<and> cpu_online_mask (offline_loop cpus s)
          = online_after_down (down_refused s) (cpu_online_mask s)
              (take k [cpu \<leftarrow> cpus. cpu \<noteq> 0 \<and> cpu_online s cpu])"
proof (induction cpus arbitrary: s)
  case Nil
  show ?case
    using offline_stop_Nil by (auto simp: online_after_down_def)
next
  case (Cons cpu cpus)
  show ?case
  proof (cases "cpu_online s cpu \<and> cpu \<noteq> 0")
    case False
    then have "[c \<leftarrow> cpu # cpus. c \<noteq> 0 \<and> cpu_online s c] = [c \<leftarrow> cpus. c \<noteq> 0 \<and> cpu_online s c]"
      and "offline_loop (cpu # cpus) s = offline_loop cpus s"
      by auto
    then show ?thesis using Cons.IH [of s] Cons.prems by simp
  next
    case True
    let ?s' = "cpu_down cpu (dprintk (Switching_offline cpu) s)"
    define cs where "cs = [c \<leftarrow> cpus. c \<noteq> 0 \<and> cpu_online s c]"
    have cands: "[c \<leftarrow> cpu # cpus. c \<noteq> 0 \<and> cpu_online s c] = cpu # cs"
      using True by (simp add: cs_def)
    have mask: "cpu_online_mask ?s' = cpu_online_mask s - ({cpu} - down_refused s)"
      using True by (auto simp: cpu_down_online cpu_online_def)
    have cs': "[c \<leftarrow> cpus. c \<noteq> 0 \<and> cpu_online ?s' c] = cs"
      unfolding cs_def using Cons.prems(1)
      by (intro filter_cong) (auto simp: cpu_online_def mask)
    show ?thesis
    proof (cases "target_cpus ?s' \<ge> num_online_cpus ?s'")
      case True
      have "offline_loop (cpu # cpus) s = ?s'"
        using True \<open>cpu_online s cpu \<and> cpu \<noteq> 0\<close> by (simp add: Let_def)
      moreover have "offline_stop (target_cpus s) (down_refused s) (cpu_online_mask s)
          (cpu # cs) (Suc 0)"
        using True Cons.prems(2)
        by (intro offline_stop_break) (simp_all add: num_online_cpus_def mask)
      moreover have "cpu_online_mask ?s'
          = online_after_down (down_refused s) (cpu_online_mask s) (take (Suc 0) (cpu # cs))"
        by (simp add: mask online_after_down_def)
      ultimately show ?thesis
        unfolding cands by (intro exI [of _ "Suc 0"]) simp
    next
      case False
      then have more: "target_cpus ?s' < num_online_cpus ?s'"
        by simp
      from Cons.IH [of ?s'] Cons.prems(1) more obtain k where
        k: "offline_stop (target_cpus s) (down_refused s) (cpu_online_mask ?s') cs k"
        and log: "hotplug_log (offline_loop cpus ?s')
            = hotplug_log s @ Cpu_down cpu # map Cpu_down (take k cs)"
        and on: "cpu_online_mask (offline_loop cpus ?s')
            = online_after_down (down_refused s) (cpu_online_mask ?s') (take k cs)"
        unfolding cs' by auto
      have "offline_loop (cpu # cpus) s = offline_loop cpus ?s'"
        using False \<open>cpu_online s cpu \<and> cpu \<noteq> 0\<close> by (simp add: Let_def)
      moreover have "offline_stop (target_cpus s) (down_refused s) (cpu_online_mask s)
          (cpu # cs) (Suc k)"
        using k more Cons.prems(2)
        by (intro offline_stop_continue) (simp_all add: num_online_cpus_def mask)
      moreover have "online_after_down (down_refused s) (cpu_online_mask ?s') (take k cs)
          = online_after_down (down_refused s) (cpu_online_mask s) (take (Suc k) (cpu # cs))"
        by (simp add: mask online_after_down_Cons)
      ultimately show ?thesis
        unfolding cands using log on by (intro exI [of _ "Suc k"]) simp
    qed
  qed
qed


subsection \<open>Passes with nothing to do\<close>

lemma offline_loop_idle:
  "cpu_online_mask s \<subseteq> {0} \<Longrightarrow> offline_loop cpus s = s"
  by (induction cpus) (auto simp: cpu_online_def)

lemma online_loop_idle:
  "cpu_possible_mask s \<inter> set cpus \<subseteq> cpu_online_mask s \<Longrightarrow> online_loop cpus s = s"
  by (induction cpus) (auto simp: cpu_online_def)

lemma possible_upto:
  "platform_ok s \<Longrightarrow> cpu_possible_mask s \<inter> set [0..<NR_CPUS s] = cpu_possible_mask s"
  by (auto simp: platform_ok_def)

lemma platform_ok_finite:
  "platform_ok s \<Longrightarrow> finite (cpu_possible_mask s) \<and> finite (cpu_online_mask s)"
  unfolding platform_ok_def by (meson finite_atLeastLessThan finite_subset)

text \<open>The three outcomes of a pass, on a platform that refuses nothing.\<close>

lemma work_cases:
  "state_helper_work s =
     (let t = compute_target (state_suspended s) (max_cpus_online (helper s));
          s1 = s\<lparr>target_cpus := t\<rparr>
      in if t < num_online_cpus s then debug_report (offline_loop [0..<NR_CPUS s] s1)
         else if num_online_cpus s < t then debug_report (online_loop [0..<NR_CPUS s] s1)
         else dprintk (Target_achieved t) s1)"
  by (simp add: state_helper_work_def compute_target_def DEFAULT_SUSP_CPUS_def Let_def
        num_online_cpus_def)

lemma work_offline_count:
  assumes ok: "platform_ok s" and nodown: "down_refused s = {}"
    and less: "compute_target (state_suspended s) (max_cpus_online (helper s)) < num_online_cpus s"
    and pos: "1 \<le> compute_target (state_suspended s) (max_cpus_online (helper s))"
  shows "num_online_cpus (state_helper_work s)
    = compute_target (state_suspended s) (max_cpus_online (helper s))"
proof -
  let ?t = "compute_target (state_suspended s) (max_cpus_online (helper s))"
  let ?s1 = "s\<lparr>target_cpus := ?t\<rparr>"
  have work: "state_helper_work s = debug_report (offline_loop [0..<NR_CPUS s] ?s1)"
    using less by (simp add: work_cases Let_def)
  have "cpu_online_mask s - (set [0..<NR_CPUS s] - {0}) \<subseteq> {0}"
    using ok by (auto simp: platform_ok_def)
  then have "card (cpu_online_mask s - (set [0..<NR_CPUS s] - {0})) \<le> card {0::nat}"
    by (intro card_mono) simp_all
  then have small: "card (cpu_online_mask ?s1 - (set [0..<NR_CPUS s] - {0})) \<le> ?t"
    using pos by simp
  have "num_online_cpus (offline_loop [0..<NR_CPUS s] ?s1)
      = max (target_cpus ?s1) (card (cpu_online_mask ?s1 - (set [0..<NR_CPUS s] - {0})))"
    using platform_ok_finite [OF ok] nodown less
    by (intro offline_loop_count) (simp_all add: num_online_cpus_def)
  with small show ?thesis
    unfolding work by simp
qed

lemma work_online_count:
  assumes ok: "platform_ok s" and noup: "up_refused s = {}"
    and more: "num_online_cpus s < compute_target (state_suspended s) (max_cpus_online (helper s))"
  shows "num_online_cpus (state_helper_work s)
    = min (compute_target (state_suspended s) (max_cpus_online (helper s)))
        (card (cpu_possible_mask s))"
proof -
  let ?t = "compute_target (state_suspended s) (max_cpus_online (helper s))"
  let ?s1 = "s\<lparr>target_cpus := ?t\<rparr>"
  have work: "state_helper_work s = debug_report (online_loop [0..<NR_CPUS s] ?s1)"
    using more by (simp add: work_cases Let_def)
  have reach: "cpu_online_mask ?s1 \<union> (cpu_possible_mask ?s1 \<inter> set [0..<NR_CPUS s])
      = cpu_possible_mask s"
    using ok by (auto simp: platform_ok_def)
  have "num_online_cpus (online_loop [0..<NR_CPUS s] ?s1)
      = (if target_cpus ?s1 \<le> num_online_cpus ?s1 then num_online_cpus ?s1
         else min (target_cpus ?s1)
                (card (cpu_online_mask ?s1 \<union> (cpu_possible_mask ?s1 \<inter> set [0..<NR_CPUS s]))))"
    using platform_ok_finite [OF ok] noup by (intro online_loop_count) simp_all
  then show ?thesis
    unfolding work reach using more by (simp add: num_online_cpus_def)
qed

lemma work_equal:
  assumes "num_online_cpus s = compute_target (state_suspended s) (max_cpus_online (helper s))"
  shows "state_helper_work s
    = dprintk (Target_achieved (num_online_cpus s)) (s\<lparr>target_cpus := num_online_cpus s\<rparr>)"
  using assms by (simp add: work_cases Let_def)

lemma work_core0:
  "cpu_online s 0 \<Longrightarrow> cpu_online (state_helper_work s) 0"
proof -
  assume on: "cpu_online s 0"
  let ?s1 = "s\<lparr>target_cpus := (if state_suspended s then DEFAULT_SUSP_CPUS
                                 else max_cpus_online (helper s))\<rparr>"
  have a: "0 \<in> cpu_online_mask (offline_loop cpus ?s1)" for cpus
    using on by (intro offline_loop_keeps_core0) (simp add: cpu_online_def)
  have b: "0 \<in> cpu_online_mask (online_loop cpus ?s1)" for cpus
    using on online_loop_superset [of ?s1 cpus] by (auto simp: cpu_online_def)
  show ?thesis
    using a b on
    by (simp add: state_helper_work_def Let_def cpu_online_def dprintk_def pr_info_def)
qed

lemma work_platform_ok:
  "platform_ok s \<Longrightarrow> platform_ok (state_helper_work s)"
proof -
  assume ok: "platform_ok s"
  let ?s1 = "s\<lparr>target_cpus := (if state_suspended s then DEFAULT_SUSP_CPUS
                                 else max_cpus_online (helper s))\<rparr>"
  have a: "cpu_online_mask (offline_loop cpus ?s1) \<subseteq> cpu_possible_mask s" for cpus
    using ok offline_loop_subset [of cpus ?s1] by (auto simp: platform_ok_def)
  have b: "cpu_online_mask (online_loop cpus ?s1) \<subseteq> cpu_possible_mask s" for cpus
    using ok online_loop_within_possible [of ?s1 cpus] by (auto simp: platform_ok_def)
  have "cpu_online_mask (state_helper_work s) \<subseteq> cpu_possible_mask s"
    using a b ok
    by (simp add: state_helper_work_def Let_def dprintk_def pr_info_def platform_ok_def)
  with ok show ?thesis
    by (simp add: platform_ok_def)
qed

lemma work_same_target:
  "compute_target (state_suspended (state_helper_work s))
      (max_cpus_online (helper (state_helper_work s)))
     = compute_target (state_suspended s) (max_cpus_online (helper s))"
  by simp

lemma work_short_circuit:
  assumes "num_online_cpus s = compute_target (state_suspended s) (max_cpus_online (helper s))"
  shows "hotplug_log (state_helper_work s) = hotplug_log s"
    and "cpu_online_mask (state_helper_work s) = cpu_online_mask s"
    and "klog (state_helper_work s)
      = klog s @ (if debug (helper s) \<noteq> 0 then [Target_achieved (num_online_cpus s)] else [])"
  unfolding work_equal [OF assms] by (simp_all add: dprintk_def pr_info_def)

lemma work_full:
  assumes ok: "platform_ok s"
    and full: "cpu_online_mask s = cpu_possible_mask s"
    and more: "num_online_cpus s < compute_target (state_suspended s) (max_cpus_online (helper s))"
  shows "hotplug_log (state_helper_work s) = hotplug_log s"
    and "cpu_online_mask (state_helper_work s) = cpu_online_mask s"
proof -
  let ?t = "compute_target (state_suspended s) (max_cpus_online (helper s))"
  let ?s1 = "s\<lparr>target_cpus := ?t\<rparr>"
  have work: "state_helper_work s = debug_report (online_loop [0..<NR_CPUS s] ?s1)"
    using more by (simp add: work_cases Let_def)
  have "online_loop [0..<NR_CPUS s] ?s1 = ?s1"
    using full by (intro online_loop_idle) auto
  then show "hotplug_log (state_helper_work s) = hotplug_log s"
    and "cpu_online_mask (state_helper_work s) = cpu_online_mask s"
    unfolding work by simp_all
qed

lemma second_pass_idle:
  assumes ok: "platform_ok s" and nodown: "down_refused s = {}" and noup: "up_refused s = {}"
    and pos: "1 \<le> max_cpus_online (helper s)"
  shows "hotplug_log (state_helper_work (state_helper_work s)) = hotplug_log (state_helper_work s)
    \<and> cpu_online_mask (state_helper_work (state_helper_work s))
        = cpu_online_mask (state_helper_work s)"
proof -
  let ?t = "compute_target (state_suspended s) (max_cpus_online (helper s))"
  let ?s' = "state_helper_work s"
  have t1: "1 \<le> ?t"
    using pos by (simp add: compute_target_def)
  have ok': "platform_ok ?s'"
    by (rule work_platform_ok [OF ok])
  have same: "compute_target (state_suspended ?s') (max_cpus_online (helper ?s')) = ?t"
    by simp
  consider (less) "?t < num_online_cpus s" | (equal) "num_online_cpus s = ?t"
    | (more) "num_online_cpus s < ?t"
    by linarith
  then have "num_online_cpus ?s' = ?t
      \<or> (cpu_online_mask ?s' = cpu_possible_mask ?s' \<and> num_online_cpus ?s' < ?t)"
  proof cases
    case less
    then show ?thesis using work_offline_count [OF ok nodown less t1] by simp
  next
    case equal
    then show ?thesis using work_short_circuit(2) [OF equal] by (simp add: num_online_cpus_def)
  next
    case more
    have count: "num_online_cpus ?s' = min ?t (card (cpu_possible_mask s))"
      by (rule work_online_count [OF ok noup more])
    show ?thesis
    proof (cases "?t \<le> card (cpu_possible_mask s)")
      case True
      with count show ?thesis by simp
    next
      case False
      with count have "card (cpu_online_mask ?s') = card (cpu_possible_mask s)"
        by (simp add: num_online_cpus_def)
      moreover have "cpu_online_mask ?s' \<subseteq> cpu_possible_mask s"
        using ok' by (simp add: platform_ok_def)
      ultimately have "cpu_online_mask ?s' = cpu_possible_mask s"
        using platform_ok_finite [OF ok] by (simp add: card_subset_eq)
      with False count show ?thesis by simp
    qed
  qed
  then show ?thesis
  proof
    assume "num_online_cpus ?s' = ?t"
    then have "num_online_cpus ?s'
        = compute_target (state_suspended ?s') (max_cpus_online (helper ?s'))"
      by simp
    from work_short_circuit(1,2) [OF this] show ?thesis by simp
  next
    assume full: "cpu_online_mask ?s' = cpu_possible_mask ?s' \<and> num_online_cpus ?s' < ?t"
    then have "num_online_cpus ?s'
        < compute_target (state_suspended ?s') (max_cpus_online (helper ?s'))"
      by simp
    from work_full [OF ok' _ this] full show ?thesis by simp
  qed
qed


subsection \<open>The claims about a pass, the dispatcher and the attributes\<close>

text \<open>
  C1, as the code has it. A pass does not read the enabled flag: it does the same with
  the flag at any value. The guard is in the event dispatcher:
  \<open>state_notifier_callback\<close> checks the flag, and with the governor disabled it returns
  without scheduling a pass and changes nothing; with the governor enabled it schedules
  one.
\<close>

theorem enabled_checked_by_dispatcher:
  "state_helper_work (set_enabled e s) = set_enabled e (state_helper_work s)
   \<and> state_notifier_callback s
       = (NOTIFY_OK, if enabled (helper s) = 0 then s else s\<lparr>work_pending := True\<rparr>)"
  by (simp add: work_enabled state_notifier_callback_def reschedule_work_def
        queue_delayed_work_def)

text \<open>
  C1 as stated fails: with the governor disabled, four cores online and the device
  suspended, a pass that runs takes cores 1, 2 and 3 offline.
\<close>

theorem pass_runs_while_disabled:
  "enabled (helper (quad\<lparr>state_suspended := True\<rparr>)) = 0
   \<and> hotplug_log (quad\<lparr>state_suspended := True\<rparr>) = []
   \<and> hotplug_log (state_helper_work (quad\<lparr>state_suspended := True\<rparr>))
       = [Cpu_down 1, Cpu_down 2, Cpu_down 3]"
  by code_simp

text \<open>
  Such a pass does run: a notification schedules a pass while the governor is enabled,
  the write of 0 to \<open>enabled\<close> clears the flag first and then stops the driver, and the
  stop flushes the pending pass before it wakes the cores again.
\<close>

lemma disabled_pass_in_a_run:
  "enabled (helper (run example_scan
      [Write_enabled ''1'' 2, Worker, Suspend True, Notify] quad)) = 1
   \<and> hotplug_log (run example_scan
      [Write_enabled ''1'' 2, Worker, Suspend True, Notify] quad) = []
   \<and> hotplug_log (run example_scan
      [Write_enabled ''1'' 2, Worker, Suspend True, Notify, Write_enabled ''0'' 2] quad)
       = [Cpu_down 1, Cpu_down 2, Cpu_down 3, Cpu_up 1, Cpu_up 2, Cpu_up 3]"
  by code_simp

text \<open>
  C2. No operation of the driver asks core 0 to go offline: not a pass, not
  \<open>state_helper_stop\<close>, and not any run of notifications, worker runs, attribute
  writes, probes, removals and suspend changes, from any state, whatever the
  configuration, the suspend flag and the online cores are.
\<close>

theorem core0_never_requested_offline:
  "no_core0_offline s (run scan es s)
   \<and> no_core0_offline s (state_helper_work s)
   \<and> no_core0_offline s (state_helper_stop s)"
  by (simp add: run_no_core0 work_no_core0 stop_no_core0)

text \<open>
  C3 as stated fails where the kernel is built for more CPU ids than the platform has
  possible cores: the default \<open>max_cpus_online\<close> of 8 is in range, nothing is refused,
  and a pass leaves 4 cores online, not 8.
\<close>

theorem target_above_possible_cores:
  "platform_ok octa_build \<and> down_refused octa_build = {} \<and> up_refused octa_build = {}
   \<and> max_cpus_online (helper octa_build) = 8 \<and> NR_CPUS octa_build = 8
   \<and> compute_target (state_suspended octa_build) (max_cpus_online (helper octa_build)) = 8
   \<and> num_online_cpus (state_helper_work octa_build) = 4"
  by code_simp

text \<open>
  C3, as the code has it. On a platform that refuses no request and has core 0 online
  when the pass starts, for every \<open>max_cpus_online\<close> from 1 to \<open>NR_CPUS\<close> and
  either value of the suspend flag, after a pass the number of online cores is the
  smaller of the target and the number of possible cores (so it is the target whenever
  the platform has that many cores), it is at least 1, and core 0 is online.
\<close>

theorem converged_pass:
  assumes "platform_ok s" and "down_refused s = {}" and "up_refused s = {}"
    and "cpu_online s 0"
    and "1 \<le> max_cpus_online (helper s)" and "max_cpus_online (helper s) \<le> NR_CPUS s"
  shows "num_online_cpus (state_helper_work s)
      = min (compute_target (state_suspended s) (max_cpus_online (helper s)))
          (card (cpu_possible_mask s))
    \<and> 1 \<le> num_online_cpus (state_helper_work s)
    \<and> cpu_online (state_helper_work s) 0"
proof -
  let ?t = "compute_target (state_suspended s) (max_cpus_online (helper s))"
  let ?s' = "state_helper_work s"
  have t1: "1 \<le> ?t"
    using assms(5) by (simp add: compute_target_def)
  have fin: "finite (cpu_possible_mask s)" "finite (cpu_online_mask s)"
    using platform_ok_finite [OF assms(1)] by simp_all
  have le: "num_online_cpus s \<le> card (cpu_possible_mask s)"
    unfolding num_online_cpus_def using assms(1) fin(1)
    by (intro card_mono) (simp_all add: platform_ok_def)
  have core0: "cpu_online ?s' 0"
    by (rule work_core0 [OF assms(4)])
  have "finite (cpu_online_mask ?s')"
    using platform_ok_finite [OF work_platform_ok [OF assms(1)]] by simp
  with core0 have "card (cpu_online_mask ?s') \<noteq> 0"
    by (auto simp: cpu_online_def)
  then have one: "1 \<le> num_online_cpus ?s'"
    by (simp add: num_online_cpus_def)
  consider (less) "?t < num_online_cpus s" | (equal) "num_online_cpus s = ?t"
    | (more) "num_online_cpus s < ?t"
    by linarith
  then have "num_online_cpus ?s' = min ?t (card (cpu_possible_mask s))"
  proof cases
    case less
    with work_offline_count [OF assms(1,2) less t1] le show ?thesis by simp
  next
    case equal
    with work_short_circuit(2) [OF equal] le show ?thesis
      by (simp add: num_online_cpus_def)
  next
    case more
    then show ?thesis by (rule work_online_count [OF assms(1,3)])
  qed
  with one core0 show ?thesis by simp
qed

text \<open>
  Four cores online, the device suspended: a pass leaves core 0 alone online. Core 0
  alone online, the device resumed: a pass brings all four cores online.
\<close>

theorem converged_pass_witness:
  "platform_ok (quad\<lparr>state_suspended := True\<rparr>)
   \<and> cpu_online (quad\<lparr>state_suspended := True\<rparr>) 0
   \<and> max_cpus_online (helper (quad\<lparr>state_suspended := True\<rparr>)) = 4
   \<and> num_online_cpus (state_helper_work (quad\<lparr>state_suspended := True\<rparr>)) = 1
   \<and> cpu_online (state_helper_work (quad\<lparr>state_suspended := True\<rparr>)) 0
   \<and> platform_ok (quad\<lparr>cpu_online_mask := {0}\<rparr>)
   \<and> num_online_cpus (state_helper_work (quad\<lparr>cpu_online_mask := {0}\<rparr>)) = 4
   \<and> cpu_online (state_helper_work (quad\<lparr>cpu_online_mask := {0}\<rparr>)) 0"
proof -
  let ?r = "quad\<lparr>cpu_online_mask := {0}\<rparr>"
  have hr: "platform_ok ?r" "down_refused ?r = {}" "up_refused ?r = {}" "cpu_online ?r 0"
    "1 \<le> max_cpus_online (helper ?r)" "max_cpus_online (helper ?r) \<le> NR_CPUS ?r"
    by code_simp+
  have vr: "min (compute_target (state_suspended ?r) (max_cpus_online (helper ?r)))
       (card (cpu_possible_mask ?r)) = 4"
    by code_simp
  from converged_pass [OF hr] vr
  have resume: "num_online_cpus (state_helper_work ?r) = 4 \<and> cpu_online (state_helper_work ?r) 0"
    by simp
  let ?s = "quad\<lparr>state_suspended := True\<rparr>"
  have h: "platform_ok ?s" "down_refused ?s = {}" "up_refused ?s = {}" "cpu_online ?s 0"
    "1 \<le> max_cpus_online (helper ?s)" "max_cpus_online (helper ?s) \<le> NR_CPUS ?s"
    by code_simp+
  have v: "max_cpus_online (helper ?s) = 4"
    "min (compute_target (state_suspended ?s) (max_cpus_online (helper ?s)))
       (card (cpu_possible_mask ?s)) = 1"
    by code_simp+
  from converged_pass [OF h] h(1,4) v resume hr(1) show ?thesis by simp
qed


text \<open>
  C4. When the target is below the number of online cores, the requests of a pass are
  \<open>Cpu_down\<close> for a prefix of the candidates: the online cores in ascending id order
  without core 0, one request per core. The prefix ends as \<open>offline_stop\<close> says: the
  live count, read after each request, was above the target before every request made,
  and the pass stops before the last candidate only once the live count is at or below
  the target. A refused core stays online and the pass goes on to the next candidate.
\<close>

theorem offline_pass_requests:
  assumes "compute_target (state_suspended s) (max_cpus_online (helper s)) < num_online_cpus s"
  shows "\<exists>k. offline_stop (compute_target (state_suspended s) (max_cpus_online (helper s)))
            (down_refused s) (cpu_online_mask s) (offline_candidates s) k
      \<and> hotplug_log (state_helper_work s)
          = hotplug_log s @ map Cpu_down (take k (offline_candidates s))
      \<and> cpu_online_mask (state_helper_work s)
          = online_after_down (down_refused s) (cpu_online_mask s)
              (take k (offline_candidates s))"
proof -
  let ?t = "compute_target (state_suspended s) (max_cpus_online (helper s))"
  let ?s1 = "s\<lparr>target_cpus := ?t\<rparr>"
  have work: "state_helper_work s = debug_report (offline_loop [0..<NR_CPUS s] ?s1)"
    using assms by (simp add: work_cases Let_def)
  have cands: "[cpu \<leftarrow> [0..<NR_CPUS s]. cpu \<noteq> 0 \<and> cpu_online ?s1 cpu] = offline_candidates s"
    by (simp add: offline_candidates_def cpu_online_def)
  have "target_cpus ?s1 < num_online_cpus ?s1"
    using assms by (simp add: num_online_cpus_def)
  with distinct_upt [of 0 "NR_CPUS s"]
  have "\<exists>k. offline_stop (target_cpus ?s1) (down_refused ?s1) (cpu_online_mask ?s1)
            [cpu \<leftarrow> [0..<NR_CPUS s]. cpu \<noteq> 0 \<and> cpu_online ?s1 cpu] k
      \<and> hotplug_log (offline_loop [0..<NR_CPUS s] ?s1)
          = hotplug_log ?s1
            @ map Cpu_down (take k [cpu \<leftarrow> [0..<NR_CPUS s]. cpu \<noteq> 0 \<and> cpu_online ?s1 cpu])
      \<and> cpu_online_mask (offline_loop [0..<NR_CPUS s] ?s1)
          = online_after_down (down_refused ?s1) (cpu_online_mask ?s1)
              (take k [cpu \<leftarrow> [0..<NR_CPUS s]. cpu \<noteq> 0 \<and> cpu_online ?s1 cpu])"
    by (rule offline_loop_requests)
  then show ?thesis
    unfolding work cands by simp
qed

text \<open>
  Four cores online, a maximum of 2, and core 1 refusing to go offline: the pass asks
  cores 1, 2 and 3 in turn and ends with cores 0 and 1 online.
\<close>

theorem offline_pass_requests_witness:
  "compute_target (state_suspended (quad\<lparr>down_refused := {1}, helper := helper_init 2\<rparr>))
      (max_cpus_online (helper (quad\<lparr>down_refused := {1}, helper := helper_init 2\<rparr>)))
     < num_online_cpus (quad\<lparr>down_refused := {1}, helper := helper_init 2\<rparr>)
   \<and> hotplug_log (state_helper_work (quad\<lparr>down_refused := {1}, helper := helper_init 2\<rparr>))
       = [Cpu_down 1, Cpu_down 2, Cpu_down 3]
   \<and> cpu_online_mask (state_helper_work (quad\<lparr>down_refused := {1}, helper := helper_init 2\<rparr>))
       = {0, 1}
   \<and> offline_stop 2 {1} {0, 1, 2, 3} [1, 2, 3] 3
   \<and> (\<exists>k. offline_stop 2 {1} {0, 1, 2, 3} [1, 2, 3] k
        \<and> hotplug_log (state_helper_work (quad\<lparr>down_refused := {1}, helper := helper_init 2\<rparr>))
            = map Cpu_down (take k [1, 2, 3]))"
proof -
  let ?s = "quad\<lparr>down_refused := {1}, helper := helper_init 2\<rparr>"
  have h: "compute_target (state_suspended ?s) (max_cpus_online (helper ?s)) < num_online_cpus ?s"
    by code_simp
  have v: "compute_target (state_suspended ?s) (max_cpus_online (helper ?s)) = 2"
    "down_refused ?s = {1}" "cpu_online_mask ?s = {0, 1, 2, 3}"
    "offline_candidates ?s = [1, 2, 3]" "hotplug_log ?s = []"
    by code_simp+
  have e: "hotplug_log (state_helper_work ?s) = [Cpu_down 1, Cpu_down 2, Cpu_down 3]"
    "cpu_online_mask (state_helper_work ?s) = {0, 1}"
    "offline_stop 2 {1} {0, 1, 2, 3} [1, 2, 3] 3"
    by code_simp+
  from offline_pass_requests [OF h]
  have "\<exists>k. offline_stop 2 {1} {0, 1, 2, 3} [1, 2, 3] k
      \<and> hotplug_log (state_helper_work ?s) = map Cpu_down (take k [1, 2, 3])"
    unfolding v by auto
  with h e show ?thesis by blast
qed





text \<open>The example scanner agrees with the kernel's on the buffers it knows.\<close>

lemma example_scan_is_sscanf:
  "sscanf_u ''0'' = example_scan ''0'' \<and> sscanf_u ''1'' = example_scan ''1''
   \<and> sscanf_u ''2'' = example_scan ''2'' \<and> sscanf_u ''4'' = example_scan ''4''
   \<and> sscanf_u ''9'' = example_scan ''9''"
  by (simp add: sscanf_u_def skip_spaces_def isdigit_def isspace_def example_scan_def)



text \<open>
  C8, as the code has it. A pass that finds the target equal to the live count makes no
  hotplug request and changes no core: it only records the target and, in debug mode,
  logs that the target is achieved. So a second pass right after a first one that
  reached its target adds no request; and on a platform that refuses nothing, with a
  maximum of at least 1, a second pass adds no request either.
\<close>

theorem pass_idempotent:
  "(num_online_cpus s = compute_target (state_suspended s) (max_cpus_online (helper s)) \<longrightarrow>
      state_helper_work s
        = dprintk (Target_achieved (num_online_cpus s)) (s\<lparr>target_cpus := num_online_cpus s\<rparr>)
      \<and> hotplug_log (state_helper_work s) = hotplug_log s
      \<and> cpu_online_mask (state_helper_work s) = cpu_online_mask s)
   \<and> (num_online_cpus (state_helper_work s)
        = compute_target (state_suspended s) (max_cpus_online (helper s)) \<longrightarrow>
      hotplug_log (state_helper_work (state_helper_work s)) = hotplug_log (state_helper_work s)
      \<and> cpu_online_mask (state_helper_work (state_helper_work s))
          = cpu_online_mask (state_helper_work s))
   \<and> (platform_ok s \<and> down_refused s = {} \<and> up_refused s = {}
        \<and> 1 \<le> max_cpus_online (helper s) \<longrightarrow>
      hotplug_log (state_helper_work (state_helper_work s)) = hotplug_log (state_helper_work s)
      \<and> cpu_online_mask (state_helper_work (state_helper_work s))
          = cpu_online_mask (state_helper_work s))"
proof (intro conjI impI)
  assume eq: "num_online_cpus s = compute_target (state_suspended s) (max_cpus_online (helper s))"
  show "state_helper_work s
      = dprintk (Target_achieved (num_online_cpus s)) (s\<lparr>target_cpus := num_online_cpus s\<rparr>)"
    by (rule work_equal [OF eq])
  show "hotplug_log (state_helper_work s) = hotplug_log s"
    by (rule work_short_circuit(1) [OF eq])
  show "cpu_online_mask (state_helper_work s) = cpu_online_mask s"
    by (rule work_short_circuit(2) [OF eq])
next
  let ?s' = "state_helper_work s"
  assume "num_online_cpus ?s'
      = compute_target (state_suspended s) (max_cpus_online (helper s))"
  then have eq: "num_online_cpus ?s'
      = compute_target (state_suspended ?s') (max_cpus_online (helper ?s'))"
    by simp
  show "hotplug_log (state_helper_work ?s') = hotplug_log ?s'"
    by (rule work_short_circuit(1) [OF eq])
  show "cpu_online_mask (state_helper_work ?s') = cpu_online_mask ?s'"
    by (rule work_short_circuit(2) [OF eq])
next
  assume h: "platform_ok s \<and> down_refused s = {} \<and> up_refused s = {}
      \<and> 1 \<le> max_cpus_online (helper s)"
  then have both: "hotplug_log (state_helper_work (state_helper_work s))
        = hotplug_log (state_helper_work s)
      \<and> cpu_online_mask (state_helper_work (state_helper_work s))
        = cpu_online_mask (state_helper_work s)"
    by (intro second_pass_idle) simp_all
  from both show "hotplug_log (state_helper_work (state_helper_work s))
      = hotplug_log (state_helper_work s)" ..
  from both show "cpu_online_mask (state_helper_work (state_helper_work s))
      = cpu_online_mask (state_helper_work s)" ..
qed


text \<open>
  On four cores with the default maximum of 4 a pass only logs; with the device
  suspended a first pass takes three cores offline and a second one adds nothing.
\<close>

theorem pass_idempotent_witness:
  "num_online_cpus quad = compute_target (state_suspended quad) (max_cpus_online (helper quad))
   \<and> hotplug_log (state_helper_work quad) = hotplug_log quad
   \<and> klog (state_helper_work quad) = [Target_achieved 4]
   \<and> platform_ok (quad\<lparr>state_suspended := True\<rparr>)
   \<and> num_online_cpus (state_helper_work (quad\<lparr>state_suspended := True\<rparr>)) = 1
   \<and> hotplug_log (state_helper_work (quad\<lparr>state_suspended := True\<rparr>))
       = [Cpu_down 1, Cpu_down 2, Cpu_down 3]
   \<and> hotplug_log (state_helper_work (state_helper_work (quad\<lparr>state_suspended := True\<rparr>)))
       = [Cpu_down 1, Cpu_down 2, Cpu_down 3]"
proof -
  let ?s = "quad\<lparr>state_suspended := True\<rparr>"
  have a: "num_online_cpus quad
      = compute_target (state_suspended quad) (max_cpus_online (helper quad))"
    by code_simp
  have b: "num_online_cpus (state_helper_work ?s)
      = compute_target (state_suspended ?s) (max_cpus_online (helper ?s))"
    by code_simp
  have c: "platform_ok ?s \<and> down_refused ?s = {} \<and> up_refused ?s = {}
      \<and> 1 \<le> max_cpus_online (helper ?s)"
    by code_simp
  have v: "klog (dprintk (Target_achieved (num_online_cpus quad))
        (quad\<lparr>target_cpus := num_online_cpus quad\<rparr>)) = [Target_achieved 4]"
    "num_online_cpus (state_helper_work ?s) = 1"
    "hotplug_log (state_helper_work ?s) = [Cpu_down 1, Cpu_down 2, Cpu_down 3]"
    by code_simp+
  from pass_idempotent [of quad] a
  have "state_helper_work quad
      = dprintk (Target_achieved (num_online_cpus quad)) (quad\<lparr>target_cpus := num_online_cpus quad\<rparr>)"
    and "hotplug_log (state_helper_work quad) = hotplug_log quad"
    by blast+
  moreover from pass_idempotent [of ?s] b c
  have "hotplug_log (state_helper_work (state_helper_work ?s)) = hotplug_log (state_helper_work ?s)"
    by blast
  ultimately show ?thesis
    using a c v by simp
qed

text \<open>
  C9 as stated fails: \<open>HELPER_ENABLED\<close> is 0, so the governor is disabled at load.
\<close>

theorem default_is_disabled:
  "enabled (helper_init 8) = 0"
  by (simp add: helper_init_def HELPER_ENABLED_def)

text \<open>
  C9, as the code has it. At module load the configuration holds the compiled-in
  defaults: the governor disabled, \<open>max_cpus_online\<close> equal to \<open>NR_CPUS\<close>, debug
  on. The probe therefore starts nothing.
\<close>

theorem compiled_in_defaults:
  "loaded s \<Longrightarrow>
   enabled (helper s) = 0 \<and> max_cpus_online (helper s) = NR_CPUS s \<and> debug (helper s) = 1
   \<and> state_helper_probe s = s"
  by (simp add: loaded_def helper_init_def HELPER_ENABLED_def DEFAULT_MAX_CPUS_ONLINE_def
        DEBUG_MASK_def state_helper_probe_def)

text \<open>The four-core example is a freshly loaded driver.\<close>

theorem compiled_in_defaults_witness:
  "loaded quad \<and> enabled (helper quad) = 0 \<and> max_cpus_online (helper quad) = 4
   \<and> debug (helper quad) = 1 \<and> state_helper_probe quad = quad"
proof -
  have h: "loaded quad" by code_simp
  have "NR_CPUS quad = 4" by code_simp
  with compiled_in_defaults [OF h] h show ?thesis by simp
qed

text \<open>
  C8 as stated fails where the platform refuses: on four cores with a maximum of 1 and
  cores 1, 2 and 3 refusing to go offline, the first pass asks the three cores and
  stays above its target, and the second pass asks the same three again.
\<close>

theorem second_pass_asks_again:
  "hotplug_log (state_helper_work
      (quad\<lparr>down_refused := {1, 2, 3}, helper := (helper quad)\<lparr>max_cpus_online := 1\<rparr>\<rparr>))
     = [Cpu_down 1, Cpu_down 2, Cpu_down 3]
   \<and> hotplug_log (state_helper_work (state_helper_work
      (quad\<lparr>down_refused := {1, 2, 3}, helper := (helper quad)\<lparr>max_cpus_online := 1\<rparr>\<rparr>)))
     = [Cpu_down 1, Cpu_down 2, Cpu_down 3, Cpu_down 1, Cpu_down 2, Cpu_down 3]"
  by code_simp

subsection \<open>The scenarios of the spec\<close>

text \<open>
  The four concrete scenarios the spec lists, on four cores. Suspending with all cores
  online takes cores 1, 2 and 3 offline in this order and leaves core 0. Resuming from
  there brings cores 1, 2 and 3 online in this order. With the governor enabled, writing
  2 to \<open>max_cpus_online\<close> queues a pass that takes cores 1 and 2 offline. Writing 0 is
  rejected and changes nothing.
\<close>

lemma spec_scenarios:
  "hotplug_log (state_helper_work (quad\<lparr>state_suspended := True\<rparr>))
     = [Cpu_down 1, Cpu_down 2, Cpu_down 3]
   \<and> cpu_online_mask (state_helper_work (quad\<lparr>state_suspended := True\<rparr>)) = {0}
   \<and> hotplug_log (state_helper_work (quad\<lparr>cpu_online_mask := {0}\<rparr>))
     = [Cpu_up 1, Cpu_up 2, Cpu_up 3]
   \<and> num_online_cpus (state_helper_work (quad\<lparr>cpu_online_mask := {0}\<rparr>)) = 4
   \<and> hotplug_log (run example_scan
        [Write_enabled ''1'' 2, Worker, Write_max_cpus_online ''2'' 2, Worker] quad)
     = [Cpu_down 1, Cpu_down 2]
   \<and> cpu_online_mask (run example_scan
        [Write_enabled ''1'' 2, Worker, Write_max_cpus_online ''2'' 2, Worker] quad)
     = {0, 3}
   \<and> store_max_cpus_online example_scan ''0'' 2 quad = (Inl EINVAL, quad)"
  by code_simp

subsection \<open>The enabled flag stays 0 or 1\<close>

lemma run_work_helper [simp]: "helper (run_work s) = helper s"
  by (simp add: run_work_def)

lemma stop_helper [simp]: "helper (state_helper_stop s) = helper s"
  by (simp add: state_helper_stop_def stop_drain_def cancel_delayed_work_sync_def
        flush_workqueue_def Let_def)

lemma start_enabled: "enabled (helper (state_helper_start s)) \<le> enabled (helper s)"
  by (simp add: state_helper_start_def Let_def set_enabled_def pr_err_def reschedule_work_def
        queue_delayed_work_def)

lemma step_enabled:
  "enabled (helper s) \<le> 1 \<Longrightarrow> enabled (helper (step scan e s)) \<le> 1"
proof (cases e)
  case (Write_enabled buf count)
  assume le: "enabled (helper s) \<le> 1"
  have "enabled (helper (state_helper_start (set_enabled v s))) \<le> 1" if "v \<le> 1" for v
    using start_enabled [of "set_enabled v s"] that by (simp add: set_enabled_def)
  moreover have "enabled (helper (state_helper_stop (set_enabled v s))) \<le> 1" if "v \<le> 1" for v
    using that by (simp add: set_enabled_def)
  ultimately show ?thesis
    using Write_enabled le
    by (auto simp: store_enabled_def Let_def split: option.splits)
next
  case Probe
  assume le: "enabled (helper s) \<le> 1"
  with start_enabled [of s] Probe show ?thesis
    by (simp add: state_helper_probe_def)
qed (simp_all add: state_notifier_callback_def reschedule_work_def queue_delayed_work_def
       store_max_cpus_online_def store_debug_mask_def state_helper_remove_def Let_def
       split: option.splits)

lemma run_enabled:
  "enabled (helper s) \<le> 1 \<Longrightarrow> enabled (helper (run scan es s)) \<le> 1"
proof (induction es arbitrary: s)
  case Nil
  then show ?case by simp
next
  case (Cons e es)
  from Cons.prems have "enabled (helper (step scan e s)) \<le> 1"
    by (rule step_enabled)
  then have "enabled (helper (run scan es (step scan e s))) \<le> 1"
    by (rule Cons.IH)
  then show ?case by simp
qed

text \<open>
  C10. In any state the driver reaches from one where the flag is 0 or 1, a write to
  \<open>enabled\<close> of the value the flag already has succeeds and changes nothing: neither
  \<open>state_helper_start\<close> nor \<open>state_helper_stop\<close> runs, and the work queue, the
  notifier and the configuration are as before.
\<close>

theorem store_enabled_same_value:
  assumes "enabled (helper s0) \<le> 1"
    and "scan buf = Some (enabled (helper (run scan es s0)))"
  shows "store_enabled scan buf count (run scan es s0) = (Inr count, run scan es s0)"
  using run_enabled [OF assms(1), of scan es] assms(2)
  by (simp add: store_enabled_def)

text \<open>The governor enabled by a write of 1, then 1 written again.\<close>

theorem store_enabled_same_value_witness:
  "enabled (helper quad) \<le> 1
   \<and> enabled (helper (run example_scan [Write_enabled ''1'' 2, Notify] quad)) = 1
   \<and> helper_wq (run example_scan [Write_enabled ''1'' 2, Notify] quad)
   \<and> example_scan ''1'' = Some 1
   \<and> store_enabled example_scan ''1'' 2 (run example_scan [Write_enabled ''1'' 2, Notify] quad)
       = (Inr 2, run example_scan [Write_enabled ''1'' 2, Notify] quad)"
proof -
  let ?es = "[Write_enabled ''1'' 2, Notify]"
  have h: "enabled (helper quad) \<le> 1"
    by code_simp
  have v: "enabled (helper (run example_scan ?es quad)) = 1" "example_scan ''1'' = Some 1"
    "helper_wq (run example_scan ?es quad)"
    by code_simp+
  then have "example_scan ''1'' = Some (enabled (helper (run example_scan ?es quad)))"
    by simp
  from store_enabled_same_value [OF h this] h v show ?thesis by simp
qed


end
